theory Spec2Isabelle
  imports Main "HOL-Library.AList"
begin

section \<open>senaite.queue: configuration lookups of the package module\<close>

text \<open>
  Python exceptions that the modelled code can raise: a failed dictionary subscript
  (\<open>KeyError\<close>) and \<open>pop\<close> on an empty list (\<open>IndexError\<close>).
\<close>

datatype error = KeyError | IndexError

text \<open>
  \<open>CHUNK_SIZES\<close> is imported from \<open>senaite.queue.config\<close>; the dictionary is a
  parameter of the model, a map from task name to chunk size.

  \<^verbatim>\<open>
  def get_chunk_size(task_name):
      if task_name in CHUNK_SIZES:
          return CHUNK_SIZES[task_name]
      return CHUNK_SIZES["default"]
  \<close>
  The subscript \<open>CHUNK_SIZES["default"]\<close> raises \<open>KeyError\<close> when the key is absent.
\<close>

definition get_chunk_size :: "(string \<rightharpoonup> int) \<Rightarrow> string \<Rightarrow> error + int" where
  "get_chunk_size CHUNK_SIZES task_name =
     (case CHUNK_SIZES task_name of
        Some v \<Rightarrow> Inr v
      | None \<Rightarrow>
          (case CHUNK_SIZES ''default'' of
             Some d \<Rightarrow> Inr d
           | None \<Rightarrow> Inl KeyError))"

text \<open>\<open>"task_action_{}".format(action)\<close>\<close>

definition get_action_task_name :: "string \<Rightarrow> string" where
  "get_action_task_name action = ''task_action_'' @ action"

text \<open>
  The Zope component registry, as far as \<open>queryUtility\<close> reads it: a map from the
  interface to the utility registered for it. \<open>queryUtility\<close> returns \<open>None\<close> when
  nothing is registered.
\<close>

datatype interface = IQueueDispatcher | IRequestAnalysis

definition queryUtility :: "(interface \<rightharpoonup> 'u) \<Rightarrow> interface \<Rightarrow> 'u option" where
  "queryUtility registry iface = registry iface"

definition get_queue_utility :: "(interface \<rightharpoonup> 'u) \<Rightarrow> 'u option" where
  "get_queue_utility registry = queryUtility registry IQueueDispatcher"

definition is_queue_enabled :: "(interface \<rightharpoonup> 'u) \<Rightarrow> bool" where
  "is_queue_enabled registry = (get_queue_utility registry \<noteq> None)"

text \<open>
  A dispatcher utility together with the one attribute of its backend that the
  specification speaks of: whether the backend can be reached. The code of
  \<open>is_queue_enabled\<close> never reads it.
\<close>

record dispatcher =
  backend_reachable :: bool


section \<open>senaite.queue.monkeys.content.worksheet\<close>

text \<open>
  The collaborators of the two worksheet routines: the catalog, the objects behind the
  brains, the worksheet itself and \<open>senaite.queue.api\<close>. Each field is the result of
  the call it is named after.
  \<^item> \<open>bac\<close>: the brains returned by \<open>bac(query)\<close>, in catalog order;
  \<^item> \<open>api_is_queued\<close>, \<open>api_is_queue_enabled\<close>: \<open>api.is_queued(brain)\<close> and
    \<open>api.is_queue_enabled(task_name)\<close>;
  \<^item> \<open>get_object\<close>: \<open>_api.get_object\<close>; \<open>getRequestID\<close>: the brain's metadata column;
  \<^item> \<open>isInstrumentAllowed\<close>, \<open>isMethodAllowed\<close>, \<open>getRequest\<close>: methods of the analysis;
  \<^item> \<open>get_slot_position\<close>, \<open>resolve_available_slots\<close>: methods of the worksheet
    (the latter already applied to the template and the type \<open>'a'\<close>);
  \<^item> \<open>get_routine_analyses\<close>: the search result of the function of that name;
  \<^item> \<open>providedBy\<close>: \<open>IRequestAnalysis.providedBy\<close>.
\<close>

record ('brain, 'obj, 'arid, 'req) env =
  bac :: "'brain list"
  api_is_queued :: "'brain \<Rightarrow> bool"
  api_is_queue_enabled :: "string \<Rightarrow> bool"
  get_object :: "'brain \<Rightarrow> 'obj"
  getRequestID :: "'brain \<Rightarrow> 'arid"
  isInstrumentAllowed :: "'obj \<Rightarrow> string \<Rightarrow> bool"
  isMethodAllowed :: "'obj \<Rightarrow> string \<Rightarrow> bool"
  getRequest :: "'obj \<Rightarrow> 'req"
  get_slot_position :: "'req \<Rightarrow> int option"
  resolve_available_slots :: "int list"
  get_routine_analyses :: "'brain list"
  providedBy :: "'obj \<Rightarrow> bool"

text \<open>The worksheet template: the two raw references the routine reads (a UID or nothing).\<close>

record wst =
  getRawInstrument :: "string option"
  getRawRestrictToMethod :: "string option"

text \<open>
  What the routines do to the outside: calls of \<open>self.addAnalysis(analysis, position)\<close>
  (\<open>position\<close> defaults to \<open>None\<close>) and of \<open>api.queue_assign_analyses(self, analyses,
  ws_template)\<close> (\<open>ws_template\<close> defaults to \<open>None\<close>), in the order they are made.
\<close>

datatype 'obj call =
    AddAnalysis 'obj "int option"
  | QueueAssignAnalyses "'obj list" "wst option"

text \<open>Python truth of a slot (\<open>None\<close> and \<open>0\<close> are false) and of a raw reference.\<close>

definition truthy :: "int option \<Rightarrow> bool" where
  "truthy slot = (case slot of None \<Rightarrow> False | Some n \<Rightarrow> n \<noteq> 0)"

definition truthy_ref :: "string option \<Rightarrow> bool" where
  "truthy_ref r = (case r of None \<Rightarrow> False | Some u \<Rightarrow> u \<noteq> [])"

text \<open>\<open>list.pop()\<close>: removes and returns the last element, \<open>IndexError\<close> on an empty list.\<close>

definition pop :: "'a list \<Rightarrow> error + ('a \<times> 'a list)" where
  "pop xs = (if xs = [] then Inl IndexError else Inr (last xs, butlast xs))"

text \<open>
  The three dictionaries of the routine and the stack of available slots. A dictionary
  is an association list with distinct keys, written with \<open>AList.update\<close>.
\<close>

record ('arid, 'obj) groups =
  available_slots :: "int list"
  ar_analyses :: "('arid \<times> 'obj list) list"
  ar_slots :: "('arid \<times> int) list"
  ar_fixed_slots :: "('arid \<times> int) list"

text \<open>
  \<^verbatim>\<open>
  if arid not in ar_analyses:
      ar_analyses[arid] = list()
  ar_analyses[arid].append(obj)
  \<close>
\<close>

definition append_analysis :: "'arid \<Rightarrow> 'obj \<Rightarrow> ('arid \<times> 'obj list) list \<Rightarrow> ('arid \<times> 'obj list) list" where
  "append_analysis arid obj d =
     AList.update arid ((case map_of d arid of None \<Rightarrow> [] | Some l \<Rightarrow> l) @ [obj]) d"

text \<open>Lines 136 to 139: record the slot of the request and append the analysis.\<close>

definition assign_slot :: "'arid \<Rightarrow> int \<Rightarrow> 'obj \<Rightarrow> ('arid, 'obj) groups \<Rightarrow> ('arid, 'obj) groups" where
  "assign_slot arid slot obj st =
     st\<lparr>ar_slots := AList.update arid slot (ar_slots st),
        ar_analyses := append_analysis arid obj (ar_analyses st)\<rparr>"

datatype flow = Continue | Break

text \<open>
  One iteration of \<open>for brain in analyses\<close> (lines 80 to 139); \<open>n\<close> is
  \<open>num_routine_analyses\<close>. The result says whether the loop goes on or was left by
  \<open>break\<close>.
\<close>

definition group_step ::
  "('brain, 'obj, 'arid, 'req) env \<Rightarrow> wst \<Rightarrow> nat \<Rightarrow> 'brain \<Rightarrow> ('arid, 'obj) groups
     \<Rightarrow> error + (flow \<times> ('arid, 'obj) groups)" where
  "group_step E t n brain st =
    (if api_is_queued E brain then Inr (Continue, st)
     else
       let obj = get_object E brain; arid = getRequestID E brain in
       if truthy_ref (getRawInstrument t) \<and> \<not> isInstrumentAllowed E obj (the (getRawInstrument t))
       then Inr (Continue, st)
       else if truthy_ref (getRawRestrictToMethod t)
               \<and> \<not> isMethodAllowed E obj (the (getRawRestrictToMethod t))
       then Inr (Continue, st)
       else
         let slot = map_of (ar_slots st) arid in
         if \<not> truthy slot then
           if length (available_slots st) = 0 \<and> n = 0 then Inr (Break, st)
           else if n = 0 then
             (case pop (available_slots st) of
                Inl e \<Rightarrow> Inl e
              | Inr (s, rest) \<Rightarrow>
                  Inr (Continue, assign_slot arid s obj (st\<lparr>available_slots := rest\<rparr>)))
           else
             let fslot = get_slot_position E (getRequest E obj) in
             if truthy fslot then
               Inr (Continue,
                    st\<lparr>ar_fixed_slots := AList.update arid (the fslot) (ar_fixed_slots st),
                       ar_analyses := append_analysis arid obj (ar_analyses st)\<rparr>)
             else if length (available_slots st) = 0 then Inr (Continue, st)
             else
               (case pop (available_slots st) of
                  Inl e \<Rightarrow> Inl e
                | Inr (s, rest) \<Rightarrow>
                    Inr (Continue, assign_slot arid s obj (st\<lparr>available_slots := rest\<rparr>)))
         else Inr (Continue, assign_slot arid (the slot) obj st))"

fun group_loop ::
  "('brain, 'obj, 'arid, 'req) env \<Rightarrow> wst \<Rightarrow> nat \<Rightarrow> 'brain list \<Rightarrow> ('arid, 'obj) groups
     \<Rightarrow> error + ('arid, 'obj) groups" where
  "group_loop E t n [] st = Inr st"
| "group_loop E t n (brain # rest) st =
     (case group_step E t n brain st of
        Inl e \<Rightarrow> Inl e
      | Inr (Break, st') \<Rightarrow> Inr st'
      | Inr (Continue, st') \<Rightarrow> group_loop E t n rest st')"

text \<open>
  The inner loop \<open>for ar_an in ar_ans\<close> (lines 158 to 168) on the pair of the calls made
  so far and \<open>to_queue\<close>.
\<close>

fun add_group ::
  "('brain, 'obj, 'arid, 'req) env \<Rightarrow> bool \<Rightarrow> int \<Rightarrow> 'obj list
     \<Rightarrow> 'obj call list \<times> 'obj list \<Rightarrow> 'obj call list \<times> 'obj list" where
  "add_group E queue_enabled slot [] acc = acc"
| "add_group E queue_enabled slot (ar_an # rest) (calls, to_queue) =
     (if \<not> providedBy E ar_an then
        add_group E queue_enabled slot rest (calls @ [AddAnalysis ar_an (Some slot)], to_queue)
      else if \<not> queue_enabled then
        add_group E queue_enabled slot rest (calls @ [AddAnalysis ar_an (Some slot)], to_queue)
      else add_group E queue_enabled slot rest (calls, to_queue @ [ar_an]))"

text \<open>
  The outer loop \<open>for ar_id in sorted_ar_ids\<close> (lines 153 to 168), with the stack
  \<open>slots\<close>: \<open>slots.pop()\<close> raises \<open>IndexError\<close> on an empty stack and
  \<open>ar_analyses[ar_id]\<close> raises \<open>KeyError\<close> on a missing key.
\<close>

fun add_regular ::
  "('brain, 'obj, 'arid, 'req) env \<Rightarrow> bool \<Rightarrow> ('arid, 'obj) groups \<Rightarrow> 'arid list
     \<Rightarrow> int list \<Rightarrow> 'obj call list \<times> 'obj list \<Rightarrow> error + ('obj call list \<times> 'obj list)" where
  "add_regular E queue_enabled G [] slots acc = Inr acc"
| "add_regular E queue_enabled G (ar_id # ids) slots acc =
     (case (if truthy (map_of (ar_fixed_slots G) ar_id)
            then Inr (the (map_of (ar_fixed_slots G) ar_id), slots)
            else pop slots) of
        Inl e \<Rightarrow> Inl e
      | Inr (slot, slots') \<Rightarrow>
          (case map_of (ar_analyses G) ar_id of
             None \<Rightarrow> Inl KeyError
           | Some ar_ans \<Rightarrow>
               add_regular E queue_enabled G ids slots' (add_group E queue_enabled slot ar_ans acc)))"

text \<open>Lines 170 to 172 and 197 to 199: \<open>if to_queue: api.queue_assign_analyses(...)\<close>.\<close>

definition submit_to_queue :: "wst option \<Rightarrow> 'obj call list \<times> 'obj list \<Rightarrow> 'obj call list" where
  "submit_to_queue t acc =
     (case acc of (calls, to_queue) \<Rightarrow>
        if to_queue \<noteq> [] then calls @ [QueueAssignAnalyses to_queue t] else calls)"

text \<open>
  \<open>_apply_worksheet_template_routine_analyses(self, wst)\<close>: the calls it makes, or the
  exception that ends it.
\<close>

definition initial_groups :: "('brain, 'obj, 'arid, 'req) env \<Rightarrow> ('arid, 'obj) groups" where
  "initial_groups E =
     \<lparr>available_slots = rev (sort (resolve_available_slots E)),
      ar_analyses = [], ar_slots = [], ar_fixed_slots = []\<rparr>"

definition apply_worksheet_template_routine_analyses ::
  "('brain, 'obj, 'arid :: linorder, 'req) env \<Rightarrow> wst \<Rightarrow> error + 'obj call list" where
  "apply_worksheet_template_routine_analyses E t =
     (if bac E = [] then Inr []
      else
        case group_loop E t (length (get_routine_analyses E)) (bac E) (initial_groups E) of
          Inl e \<Rightarrow> Inl e
        | Inr G \<Rightarrow>
            (case add_regular E (api_is_queue_enabled E ''task_assign_analyses'') G
                    (sort (map fst (ar_analyses G)))
                    (rev (sort (map snd (ar_slots G))))
                    ([], []) of
               Inl e \<Rightarrow> Inl e
             | Inr acc \<Rightarrow> Inr (submit_to_queue (Some t) acc)))"

text \<open>\<open>addAnalyses(self, analyses)\<close>: the loop of lines 188 to 195, then the submission.\<close>

fun addAnalyses_loop ::
  "('brain, 'obj, 'arid, 'req) env \<Rightarrow> bool \<Rightarrow> 'brain list
     \<Rightarrow> 'obj call list \<times> 'obj list \<Rightarrow> 'obj call list \<times> 'obj list" where
  "addAnalyses_loop E queue_enabled [] acc = acc"
| "addAnalyses_loop E queue_enabled (a # rest) (calls, to_queue) =
     (let analysis = get_object E a in
      if \<not> queue_enabled then
        addAnalyses_loop E queue_enabled rest (calls @ [AddAnalysis analysis None], to_queue)
      else if \<not> providedBy E analysis then
        addAnalyses_loop E queue_enabled rest (calls @ [AddAnalysis analysis None], to_queue)
      else addAnalyses_loop E queue_enabled rest (calls, to_queue @ [analysis]))"

definition addAnalyses :: "('brain, 'obj, 'arid, 'req) env \<Rightarrow> 'brain list \<Rightarrow> 'obj call list" where
  "addAnalyses E analyses =
     submit_to_queue None
       (addAnalyses_loop E (api_is_queue_enabled E ''task_assign_analyses'') analyses ([], []))"

text \<open>The analyses a list of calls adds directly, and those it hands to the queue.\<close>

fun added :: "'obj call list \<Rightarrow> 'obj list" where
  "added [] = []"
| "added (AddAnalysis a p # cs) = a # added cs"
| "added (QueueAssignAnalyses as t # cs) = added cs"

fun queued :: "'obj call list \<Rightarrow> 'obj list" where
  "queued [] = []"
| "queued (AddAnalysis a p # cs) = queued cs"
| "queued (QueueAssignAnalyses as t # cs) = as @ queued cs"

subsection \<open>Notions used to state the properties of the worksheet routines\<close>

text \<open>
  An analysis goes the direct way (\<open>self.addAnalysis\<close>) when it does not provide
  \<open>IRequestAnalysis\<close> or the queue is not enabled; both routines test exactly this,
  in either order.
\<close>

definition direct :: "('brain, 'obj, 'arid, 'req) env \<Rightarrow> bool \<Rightarrow> 'obj \<Rightarrow> bool" where
  "direct E queue_enabled a \<longleftrightarrow> \<not> providedBy E a \<or> \<not> queue_enabled"

fun is_add :: "'obj call \<Rightarrow> bool" where
  "is_add (AddAnalysis a p) = True"
| "is_add (QueueAssignAnalyses as t) = False"

text \<open>
  The group of a request in \<open>ar_analyses\<close>, and the analyses the first loop of the
  template routine has grouped, in the order in which the second loop visits them.
\<close>

definition lookup_group :: "('arid, 'obj) groups \<Rightarrow> 'arid \<Rightarrow> 'obj list" where
  "lookup_group G k = (case map_of (ar_analyses G) k of None \<Rightarrow> [] | Some l \<Rightarrow> l)"

definition grouped_analyses :: "('brain, 'obj, 'arid :: linorder, 'req) env \<Rightarrow> wst \<Rightarrow> 'obj list" where
  "grouped_analyses E t =
     (case group_loop E t (length (get_routine_analyses E)) (bac E) (initial_groups E) of
        Inl e \<Rightarrow> []
      | Inr G \<Rightarrow> concat (map (lookup_group G) (sort (map fst (ar_analyses G)))))"

text \<open>
  An analysis comes from a brain that \<open>api.is_queued\<close> does not report, and all
  grouped analyses do.
\<close>

definition from_unqueued :: "('brain, 'obj, 'arid, 'req) env \<Rightarrow> 'brain set \<Rightarrow> 'obj \<Rightarrow> bool" where
  "from_unqueued E B a \<longleftrightarrow> (\<exists>b \<in> B. \<not> api_is_queued E b \<and> get_object E b = a)"

definition groups_from :: "('brain, 'obj, 'arid, 'req) env \<Rightarrow> 'brain set \<Rightarrow> ('arid, 'obj) groups \<Rightarrow> bool" where
  "groups_from E B st \<longleftrightarrow>
     (\<forall>k l. map_of (ar_analyses st) k = Some l \<longrightarrow> (\<forall>a \<in> set l. from_unqueued E B a))"

text \<open>
  What the first loop keeps true of its dictionaries: keys are distinct, and every
  request with a group has a true fixed slot or an entry in \<open>ar_slots\<close>.
\<close>

definition groups_inv :: "('arid, 'obj) groups \<Rightarrow> bool" where
  "groups_inv st \<longleftrightarrow>
     distinct (map fst (ar_slots st)) \<and> distinct (map fst (ar_analyses st)) \<and>
     (\<forall>k \<in> fst ` set (ar_analyses st).
        truthy (map_of (ar_fixed_slots st) k) \<or> k \<in> fst ` set (ar_slots st))"

section \<open>The queue engine of the specification\<close>

text \<open>
  Modelled from the spec: the Chunker's \<open>split(items, chunk_size)\<close> is not among the
  sources. The specification gives its contract: a sequence of chunks, each bounded by
  \<open>chunk_size\<close>, preserving the original relative order. The model cuts consecutive
  runs of \<open>chunk_size\<close> items; a chunk size of zero is outside the contract
  (\<open>chunk_size\<close> is a positive integer) and yields no chunk.
\<close>

function chunker_split :: "'a list \<Rightarrow> nat \<Rightarrow> 'a list list" where
  "chunker_split items chunk_size =
     (if chunk_size = 0 \<or> items = [] then []
      else take chunk_size items # chunker_split (drop chunk_size items) chunk_size)"
  by pat_completeness auto
termination
  by (relation "measure (\<lambda>(items, chunk_size). length items)") auto

declare chunker_split.simps [simp del]

text \<open>
  Modelled from the spec: the error taxonomy of section 7, absent from the sources.
\<close>

datatype queue_error =
  DuplicateTargetError | UnknownTaskTypeError | ChunkExecutionError | TaskExhaustedError

text \<open>
  Modelled from the spec: the task status of section 3, absent from the sources.
\<close>

datatype status = Queued | Running | Done | Failed | RetryPending

text \<open>
  Modelled from the spec: the Task record of section 3, absent from the sources; the
  identifier is the position of the task in the store, the two timestamps are left out.
\<close>

record ('target, 'item) task =
  task_id :: nat
  name :: string
  target_ref :: 'target
  payload :: "'item list"
  chunk_size :: nat
  status :: status
  attempts :: nat

text \<open>
  Modelled from the spec: \<open>ExecutionResult{applied_count, remaining, error}\<close> of the
  Executor, absent from the sources.
\<close>

record 'item ExecutionResult =
  applied_count :: nat
  remaining :: "'item list"
  error :: "queue_error option"

text \<open>
  Modelled from the spec: a registered handler implements \<open>run(target_ref, chunk) ->
  ExecutionResult\<close> and may fault; a fault is the left summand.
\<close>

type_synonym ('target, 'item, 'fault) handler =
  "'target \<Rightarrow> 'item list \<Rightarrow> 'fault + 'item ExecutionResult"

text \<open>
  Modelled from the spec: the Executor's \<open>run(task, chunk)\<close>, absent from the
  sources. It executes the handler registered for the task's name against the chunk
  and the task's target; a handler fault becomes the \<open>error\<close> field of the result.
  The left summand of the result type stands for an exception leaving \<open>run\<close>. The
  specification does not say what \<open>applied_count\<close> and \<open>remaining\<close> are after a
  fault; the model reports nothing applied.
\<close>

definition executor_run ::
  "(string \<rightharpoonup> ('target, 'item, 'fault) handler) \<Rightarrow> ('target, 'item) task \<Rightarrow> 'item list
     \<Rightarrow> queue_error + 'item ExecutionResult" where
  "executor_run handlers t chunk =
     (case handlers (name t) of
        None \<Rightarrow> Inr \<lparr>applied_count = 0, remaining = chunk, error = Some UnknownTaskTypeError\<rparr>
      | Some h \<Rightarrow>
          (case h (target_ref t) chunk of
             Inl fault \<Rightarrow>
               Inr \<lparr>applied_count = 0, remaining = chunk, error = Some ChunkExecutionError\<rparr>
           | Inr r \<Rightarrow> Inr r))"

text \<open>
  Modelled from the spec: the active statuses \<open>queued\<close>, \<open>running\<close> and
  \<open>retry_pending\<close> of the Dedup Entry invariant.
\<close>

definition is_active :: "status \<Rightarrow> bool" where
  "is_active s \<longleftrightarrow> s = Queued \<or> s = Running \<or> s = RetryPending"

text \<open>
  Modelled from the spec: the Deduplication Index, a derived view of the Task Store:
  the active tasks that reference a target.
\<close>

definition locks :: "'target \<Rightarrow> ('target, 'item) task \<Rightarrow> bool" where
  "locks target t \<longleftrightarrow> target_ref t = target \<and> is_active (status t)"

definition active_tasks :: "('target, 'item) task list \<Rightarrow> 'target \<Rightarrow> ('target, 'item) task list" where
  "active_tasks store target = filter (locks target) store"

text \<open>
  Modelled from the spec: the Dispatcher's \<open>is_queued(target_ref)\<close>, absent from the
  sources.
\<close>

definition is_queued :: "('target, 'item) task list \<Rightarrow> 'target \<Rightarrow> bool" where
  "is_queued store target \<longleftrightarrow> active_tasks store target \<noteq> []"

text \<open>
  Modelled from the spec: the policy for a submission against a locked target, merge
  or reject.
\<close>

datatype policy = Merge | Reject

text \<open>
  Modelled from the spec: merging appends the submitted items to the payload of the
  task that holds the lock.
\<close>

definition merge_payload ::
  "nat \<Rightarrow> 'item list \<Rightarrow> ('target, 'item) task list \<Rightarrow> ('target, 'item) task list" where
  "merge_payload tid items store =
     map (\<lambda>t. if task_id t = tid then t\<lparr>payload := payload t @ items\<rparr> else t) store"

text \<open>
  Modelled from the spec: the Dispatcher's \<open>submit(name, target_ref, items,
  chunk_size)\<close>, absent from the sources. It fails with \<open>UnknownTaskTypeError\<close> for a
  name without a registered handler, and for a locked target either fails with
  \<open>DuplicateTargetError\<close> or merges, by policy; otherwise it creates a \<open>queued\<close>
  task. The chunk size is passed in resolved (see \<open>get_chunk_size\<close>). The result is
  the task identifier and the new store.
\<close>

definition submit ::
  "policy \<Rightarrow> string set \<Rightarrow> ('target, 'item) task list \<Rightarrow> string \<Rightarrow> 'target \<Rightarrow> 'item list \<Rightarrow> nat
     \<Rightarrow> queue_error + (nat \<times> ('target, 'item) task list)" where
  "submit pol registered store nm target items csize =
     (if nm \<notin> registered then Inl UnknownTaskTypeError
      else
        case active_tasks store target of
          holder # others \<Rightarrow>
            (case pol of
               Reject \<Rightarrow> Inl DuplicateTargetError
             | Merge \<Rightarrow> Inr (task_id holder, merge_payload (task_id holder) items store))
        | [] \<Rightarrow>
            Inr (length store,
                 store @ [\<lparr>task_id = length store, name = nm, target_ref = target,
                           payload = items, chunk_size = csize, status = Queued,
                           attempts = 0\<rparr>]))"

text \<open>
  Modelled from the spec: the transitions of the Lifecycle Controller's state machine
  (section 4.4), and the administrative abort of a task that is not running a chunk.
\<close>

fun allowed :: "status \<Rightarrow> status \<Rightarrow> bool" where
  "allowed Queued Running = True"
| "allowed Running Done = True"
| "allowed Running RetryPending = True"
| "allowed Running Failed = True"
| "allowed RetryPending Running = True"
| "allowed RetryPending Failed = True"
| "allowed Queued Failed = True"
| "allowed old new = False"

text \<open>
  Modelled from the spec: a status transition of one task, the only place the
  status is written; a transition the state machine does not allow changes nothing.
\<close>

definition transition ::
  "nat \<Rightarrow> status \<Rightarrow> ('target, 'item) task list \<Rightarrow> ('target, 'item) task list" where
  "transition tid new store =
     map (\<lambda>t. if task_id t = tid \<and> allowed (status t) new then t\<lparr>status := new\<rparr> else t) store"

text \<open>
  Modelled from the spec: the operations that producers and workers apply to the
  Task Store, each atomic (section 5), and a run of them from the empty store in any
  interleaving.
\<close>

datatype ('target, 'item) operation =
    Submit string 'target "'item list" nat
  | Transition nat status

fun apply_operation ::
  "policy \<Rightarrow> string set \<Rightarrow> ('target, 'item) task list \<Rightarrow> ('target, 'item) operation
     \<Rightarrow> ('target, 'item) task list" where
  "apply_operation pol registered store (Submit nm target items csize) =
     (case submit pol registered store nm target items csize of
        Inl e \<Rightarrow> store
      | Inr (tid, store') \<Rightarrow> store')"
| "apply_operation pol registered store (Transition tid new) = transition tid new store"

definition run_operations ::
  "policy \<Rightarrow> string set \<Rightarrow> ('target, 'item) operation list \<Rightarrow> ('target, 'item) task list" where
  "run_operations pol registered ops = foldl (apply_operation pol registered) [] ops"

text \<open>
  Modelled from the spec: the dedup invariant, at most one active task for each
  target.
\<close>

definition dedup_inv :: "('target, 'item) task list \<Rightarrow> bool" where
  "dedup_inv store \<longleftrightarrow> (\<forall>target. length (active_tasks store target) \<le> 1)"

subsection \<open>The switch of the dispatcher\<close>

text \<open>
  Modelled from the spec: \<open>senaite.queue.api\<close> is not among the sources. Its
  \<open>is_queue_enabled(task_name)\<close> is the producer interface of section 6, which
  section 8 ties to the Dispatcher: it returns false when no dispatcher is configured.
  The model is the Dispatcher's \<open>is_enabled\<close>, which is \<open>is_queue_enabled\<close> of the
  package module, together with whatever the interface asks of the task name; the
  specification leaves that open, so it is a parameter.
\<close>

definition api_is_queue_enabled_of :: "(interface \<rightharpoonup> 'u) \<Rightarrow> (string \<Rightarrow> bool) \<Rightarrow> string \<Rightarrow> bool" where
  "api_is_queue_enabled_of registry task_allowed task_name \<longleftrightarrow>
     is_queue_enabled registry \<and> task_allowed task_name"

text \<open>
  Modelled from the spec: the collaborators of the worksheet routines when
  \<open>api.is_queue_enabled\<close> answers from the component registry as above.
\<close>

definition with_dispatcher ::
  "('brain, 'obj, 'arid, 'req) env \<Rightarrow> (interface \<rightharpoonup> 'u) \<Rightarrow> (string \<Rightarrow> bool)
     \<Rightarrow> ('brain, 'obj, 'arid, 'req) env" where
  "with_dispatcher E registry task_allowed =
     E\<lparr>api_is_queue_enabled := api_is_queue_enabled_of registry task_allowed\<rparr>"

text \<open>
  Modelled from the spec: section 4.1, all other operations of the Dispatcher are
  no-ops when it is disabled. An operation reaches the Task Store only while
  \<open>is_queue_enabled\<close> holds; otherwise the store is left as it is.
\<close>

definition dispatch ::
  "(interface \<rightharpoonup> 'u) \<Rightarrow> policy \<Rightarrow> string set \<Rightarrow> ('target, 'item) task list
     \<Rightarrow> ('target, 'item) operation \<Rightarrow> ('target, 'item) task list" where
  "dispatch registry pol registered store op =
     (if is_queue_enabled registry then apply_operation pol registered store op else store)"

section \<open>Example data\<close>

text \<open>
  A catalog of four analyses of two requests on an empty worksheet with three free
  slots; the second brain is in the queue, and the analysis 13 is a reference analysis.
\<close>

definition sample_env :: "(nat, nat, nat, nat) env" where
  "sample_env =
     \<lparr>bac = [1, 2, 3, 4],
      api_is_queued = (\<lambda>b. b = 2),
      api_is_queue_enabled = (\<lambda>name. True),
      get_object = (\<lambda>b. b + 10),
      getRequestID = (\<lambda>b. b div 3),
      isInstrumentAllowed = (\<lambda>a i. True),
      isMethodAllowed = (\<lambda>a m. True),
      getRequest = (\<lambda>a. a),
      get_slot_position = (\<lambda>r. None),
      resolve_available_slots = [1, 2, 3],
      get_routine_analyses = [],
      providedBy = (\<lambda>a. a \<noteq> 13)\<rparr>"

definition sample_env_disabled :: "(nat, nat, nat, nat) env" where
  "sample_env_disabled = sample_env\<lparr>api_is_queue_enabled := (\<lambda>name. False)\<rparr>"

definition sample_wst :: wst where
  "sample_wst = \<lparr>getRawInstrument = None, getRawRestrictToMethod = None\<rparr>"

definition sample_ops :: "(string, nat) operation list" where
  "sample_ops =
     [Submit ''task_assign_analyses'' ''worksheet-1'' [1, 2] 5,
      Transition 0 Running,
      Submit ''task_assign_analyses'' ''worksheet-1'' [3] 5,
      Submit ''task_assign_analyses'' ''worksheet-2'' [4] 5]"

definition sample_task :: "(string, nat) task" where
  "sample_task =
     \<lparr>task_id = 0, name = ''task_assign_analyses'', target_ref = ''worksheet-1'',
      payload = [1, 2], chunk_size = 5, status = Running, attempts = 0\<rparr>"

definition faulty_handlers :: "string \<rightharpoonup> (string, nat, unit) handler" where
  "faulty_handlers = [''task_assign_analyses'' \<mapsto> (\<lambda>target chunk. Inl ())]"

section \<open>The first loop of the template routine\<close>

lemma pop_nonempty: "xs \<noteq> [] \<Longrightarrow> pop xs = Inr (last xs, butlast xs)"
  by (simp add: pop_def)

lemma group_step_returns: "\<exists>f st'. group_step E t n brain st = Inr (f, st')"
  by (auto simp: group_step_def Let_def pop_def)

lemma group_loop_returns: "\<exists>G. group_loop E t n brains st = Inr G"
proof (induction brains arbitrary: st)
  case Nil
  show ?case by simp
next
  case (Cons b bs)
  obtain f st' where s: "group_step E t n b st = Inr (f, st')"
    using group_step_returns [of E t n b st] by blast
  show ?case
  proof (cases f)
    case Continue
    with s Cons.IH [of st'] show ?thesis by simp
  next
    case Break
    with s show ?thesis by simp
  qed
qed

lemma truthy_the: "truthy s \<Longrightarrow> truthy (Some (the s))"
  by (cases s) (auto simp: truthy_def)

lemma assign_slot_inv: "groups_inv st \<Longrightarrow> groups_inv (assign_slot arid s obj st)"
  by (auto simp: groups_inv_def assign_slot_def append_analysis_def
        AList.distinct_update AList.dom_update)

lemma assign_slot_avail_inv:
  "groups_inv st \<Longrightarrow> groups_inv (assign_slot arid s obj (st\<lparr>available_slots := r\<rparr>))"
  by (auto simp: groups_inv_def assign_slot_def append_analysis_def
        AList.distinct_update AList.dom_update)

lemma fixed_slot_inv:
  "groups_inv st \<Longrightarrow> truthy f \<Longrightarrow>
   groups_inv (st\<lparr>ar_fixed_slots := AList.update arid (the f) (ar_fixed_slots st),
                  ar_analyses := append_analysis arid obj (ar_analyses st)\<rparr>)"
  by (auto simp: groups_inv_def append_analysis_def AList.distinct_update AList.dom_update
        AList.update_conv' truthy_the)

lemma group_step_inv:
  "groups_inv st \<Longrightarrow> group_step E t n brain st = Inr (f, st') \<Longrightarrow> groups_inv st'"
  unfolding group_step_def Let_def
  by (auto simp: pop_def assign_slot_inv assign_slot_avail_inv fixed_slot_inv split: if_splits)

lemma group_loop_inv:
  "groups_inv st \<Longrightarrow> group_loop E t n brains st = Inr G \<Longrightarrow> groups_inv G"
proof (induction brains arbitrary: st)
  case Nil
  then show ?case by simp
next
  case (Cons b bs)
  obtain f st' where s: "group_step E t n b st = Inr (f, st')"
    using group_step_returns [of E t n b st] by blast
  have i: "groups_inv st'" using group_step_inv [OF Cons.prems(1) s] .
  show ?case
  proof (cases f)
    case Continue
    with s Cons.prems(2) have "group_loop E t n bs st' = Inr G" by simp
    then show ?thesis using Cons.IH i by blast
  next
    case Break
    with s Cons.prems(2) i show ?thesis by simp
  qed
qed

lemma initial_groups_inv: "groups_inv (initial_groups E)"
  by (simp add: groups_inv_def initial_groups_def)

subsection \<open>Where the grouped analyses come from\<close>

lemma append_analysis_from:
  assumes "groups_from E B st" and "from_unqueued E B obj"
    and "ar_analyses st' = append_analysis arid obj (ar_analyses st)"
  shows "groups_from E B st'"
  using assms
  by (auto simp: groups_from_def append_analysis_def AList.update_conv'
        split: option.splits if_splits)

lemma group_step_from:
  assumes "groups_from E B st" and "brain \<in> B"
    and "group_step E t n brain st = Inr (f, st')"
  shows "groups_from E B st'"
proof (cases "api_is_queued E brain")
  case True
  with assms show ?thesis by (simp add: group_step_def)
next
  case False
  with assms(2) have u: "from_unqueued E B (get_object E brain)"
    by (auto simp: from_unqueued_def)
  have "st' = st \<or> ar_analyses st' = append_analysis (getRequestID E brain) (get_object E brain) (ar_analyses st)"
    using assms(3) False unfolding group_step_def Let_def
    by (auto simp: pop_def assign_slot_def split: if_splits)
  then show ?thesis using append_analysis_from [OF assms(1) u] assms(1) by blast
qed

lemma group_loop_from:
  "groups_from E B st \<Longrightarrow> set brains \<subseteq> B \<Longrightarrow> group_loop E t n brains st = Inr G
   \<Longrightarrow> groups_from E B G"
proof (induction brains arbitrary: st)
  case Nil
  then show ?case by simp
next
  case (Cons b bs)
  obtain f st' where s: "group_step E t n b st = Inr (f, st')"
    using group_step_returns [of E t n b st] by blast
  from Cons.prems(2) have "b \<in> B" by simp
  from group_step_from [OF Cons.prems(1) this s] have i: "groups_from E B st'" .
  show ?case
  proof (cases f)
    case Continue
    with s Cons.prems(3) have "group_loop E t n bs st' = Inr G" by simp
    then show ?thesis using Cons.IH [OF i] Cons.prems(2) by simp
  next
    case Break
    with s Cons.prems(3) i show ?thesis by simp
  qed
qed

lemma initial_groups_from: "groups_from E B (initial_groups E)"
  by (simp add: groups_from_def initial_groups_def)

lemma grouped_analyses_from:
  "a \<in> set (grouped_analyses E t) \<Longrightarrow> from_unqueued E (set (bac E)) a"
proof -
  assume a: "a \<in> set (grouped_analyses E t)"
  obtain G where g: "group_loop E t (length (get_routine_analyses E)) (bac E) (initial_groups E) = Inr G"
    using group_loop_returns [of E t "length (get_routine_analyses E)" "bac E" "initial_groups E"] by blast
  have f: "groups_from E (set (bac E)) G"
    using group_loop_from [OF initial_groups_from _ g] by simp
  from a g obtain k where "a \<in> set (lookup_group G k)"
    by (auto simp: grouped_analyses_def)
  then obtain l where "map_of (ar_analyses G) k = Some l" "a \<in> set l"
    by (cases "map_of (ar_analyses G) k") (auto simp: lookup_group_def)
  then show ?thesis using f unfolding groups_from_def by blast
qed

section \<open>The second loop and the submission\<close>

lemma added_append: "added (cs @ ds) = added cs @ added ds"
  by (induction cs rule: added.induct) auto

lemma queued_append: "queued (cs @ ds) = queued cs @ queued ds"
  by (induction cs rule: queued.induct) auto

lemma add_group_eq:
  "add_group E qe slot objs (calls, tq) =
     (calls @ map (\<lambda>a. AddAnalysis a (Some slot)) (filter (direct E qe) objs),
      tq @ filter (\<lambda>a. \<not> direct E qe a) objs)"
  by (induction objs arbitrary: calls tq) (auto simp: direct_def)

lemma added_map_add: "added (map (\<lambda>a. AddAnalysis a p) xs) = xs"
  by (induction xs) auto

lemma queued_map_add: "queued (map (\<lambda>a. AddAnalysis a p) xs) = []"
  by (induction xs) auto

lemma add_regular_result:
  "add_regular E qe G ids slots (calls, tq) = Inr (calls', tq') \<Longrightarrow>
   (\<exists>adds. calls' = calls @ adds \<and> list_all is_add adds \<and>
      added adds = filter (direct E qe) (concat (map (lookup_group G) ids))) \<and>
   tq' = tq @ filter (\<lambda>a. \<not> direct E qe a) (concat (map (lookup_group G) ids))"
proof (induction ids arbitrary: slots calls tq)
  case Nil
  then show ?case by simp
next
  case (Cons k ids)
  from Cons.prems obtain slot slots' ar_ans where
    g: "map_of (ar_analyses G) k = Some ar_ans" and
    r: "add_regular E qe G ids slots' (add_group E qe slot ar_ans (calls, tq)) = Inr (calls', tq')"
    by (auto split: sum.splits option.splits if_splits)
  let ?mid = "map (\<lambda>a. AddAnalysis a (Some slot)) (filter (direct E qe) ar_ans)"
  from r have r': "add_regular E qe G ids slots'
      (calls @ ?mid, tq @ filter (\<lambda>a. \<not> direct E qe a) ar_ans) = Inr (calls', tq')"
    by (simp add: add_group_eq)
  from Cons.IH [OF r'] obtain adds where
    a: "calls' = (calls @ ?mid) @ adds" "list_all is_add adds"
       "added adds = filter (direct E qe) (concat (map (lookup_group G) ids))" and
    q: "tq' = (tq @ filter (\<lambda>a. \<not> direct E qe a) ar_ans)
               @ filter (\<lambda>a. \<not> direct E qe a) (concat (map (lookup_group G) ids))"
    by blast
  have lg: "lookup_group G k = ar_ans" using g by (simp add: lookup_group_def)
  have "calls' = calls @ (?mid @ adds)" using a(1) by simp
  moreover have "list_all is_add (?mid @ adds)" using a(2) by (auto simp: list_all_iff)
  moreover have "added (?mid @ adds)
      = filter (direct E qe) (concat (map (lookup_group G) (k # ids)))"
    using a(3) lg by (simp add: added_append added_map_add)
  moreover have "tq' = tq @ filter (\<lambda>a. \<not> direct E qe a) (concat (map (lookup_group G) (k # ids)))"
    using q lg by simp
  ultimately show ?case by blast
qed

lemma add_regular_returns:
  "\<forall>k \<in> set ids. map_of (ar_analyses G) k \<noteq> None \<Longrightarrow>
   length (filter (\<lambda>k. \<not> truthy (map_of (ar_fixed_slots G) k)) ids) \<le> length slots \<Longrightarrow>
   \<exists>r. add_regular E qe G ids slots acc = Inr r"
proof (induction ids arbitrary: slots acc)
  case Nil
  show ?case by simp
next
  case (Cons k ids)
  from Cons.prems(1) obtain ar_ans where g: "map_of (ar_analyses G) k = Some ar_ans" by auto
  show ?case
  proof (cases "truthy (map_of (ar_fixed_slots G) k)")
    case True
    with Cons.prems have "length (filter (\<lambda>k. \<not> truthy (map_of (ar_fixed_slots G) k)) ids) \<le> length slots"
      by simp
    from Cons.IH [OF _ this] Cons.prems(1) True g show ?thesis by simp
  next
    case False
    with Cons.prems(2) have ne: "slots \<noteq> []" by auto
    from False Cons.prems(2)
    have "length (filter (\<lambda>k. \<not> truthy (map_of (ar_fixed_slots G) k)) ids) \<le> length (butlast slots)"
      by simp
    from Cons.IH [OF _ this] Cons.prems(1) False g ne show ?thesis by (simp add: pop_def)
  qed
qed

lemma groups_inv_slots_suffice:
  fixes G :: "('arid :: linorder, 'obj) groups"
  assumes "groups_inv G"
  shows "length (filter (\<lambda>k. \<not> truthy (map_of (ar_fixed_slots G) k)) (sort (map fst (ar_analyses G))))
           \<le> length (rev (sort (map snd (ar_slots G))))"
proof -
  let ?ids = "sort (map fst (ar_analyses G))"
  let ?f = "filter (\<lambda>k. \<not> truthy (map_of (ar_fixed_slots G) k)) ?ids"
  have d: "distinct ?f" using assms by (simp add: groups_inv_def)
  have sub: "set ?f \<subseteq> set (map fst (ar_slots G))"
    using assms by (auto simp: groups_inv_def)
  have "length ?f = card (set ?f)" using distinct_card [OF d] by simp
  also have "\<dots> \<le> card (set (map fst (ar_slots G)))" using sub by (simp add: card_mono)
  also have "\<dots> \<le> length (map fst (ar_slots G))" by (rule card_length)
  finally show ?thesis by simp
qed

lemma sorted_keys_present:
  fixes G :: "('arid :: linorder, 'obj) groups"
  shows "\<forall>k \<in> set (sort (map fst (ar_analyses G))). map_of (ar_analyses G) k \<noteq> None"
  by (auto simp: map_of_eq_None_iff)

lemma routine_result:
  fixes E :: "('brain, 'obj, 'arid :: linorder, 'req) env"
  shows "\<exists>adds. apply_worksheet_template_routine_analyses E t =
           Inr (submit_to_queue (Some t)
                  (adds, filter (\<lambda>a. \<not> direct E (api_is_queue_enabled E ''task_assign_analyses'') a)
                           (grouped_analyses E t))) \<and>
         list_all is_add adds \<and>
         added adds = filter (direct E (api_is_queue_enabled E ''task_assign_analyses''))
                        (grouped_analyses E t)"
proof (cases "bac E = []")
  case True
  then have "grouped_analyses E t = []"
    by (simp add: grouped_analyses_def initial_groups_def)
  with True show ?thesis
    by (simp add: apply_worksheet_template_routine_analyses_def submit_to_queue_def)
next
  case False
  let ?qe = "api_is_queue_enabled E ''task_assign_analyses''"
  obtain G where g: "group_loop E t (length (get_routine_analyses E)) (bac E) (initial_groups E) = Inr G"
    using group_loop_returns [of E t "length (get_routine_analyses E)" "bac E" "initial_groups E"] by blast
  have i: "groups_inv G" using group_loop_inv [OF initial_groups_inv g] .
  let ?ids = "sort (map fst (ar_analyses G))"
  let ?slots = "rev (sort (map snd (ar_slots G)))"
  obtain r where r: "add_regular E ?qe G ?ids ?slots ([], []) = Inr r"
    using add_regular_returns [OF sorted_keys_present groups_inv_slots_suffice [OF i], of E ?qe "([], [])"]
    by blast
  obtain calls tq where p: "r = (calls, tq)" by (cases r)
  from add_regular_result [OF r [unfolded p]] obtain adds where
    a: "calls = adds" "list_all is_add adds"
       "added adds = filter (direct E ?qe) (concat (map (lookup_group G) ?ids))"
       "tq = filter (\<lambda>a. \<not> direct E ?qe a) (concat (map (lookup_group G) ?ids))"
    by auto
  have ga: "grouped_analyses E t = concat (map (lookup_group G) ?ids)"
    using g by (simp add: grouped_analyses_def)
  have "apply_worksheet_template_routine_analyses E t = Inr (submit_to_queue (Some t) (calls, tq))"
    using False g r p by (simp add: apply_worksheet_template_routine_analyses_def)
  then show ?thesis using a ga by auto
qed

lemma addAnalyses_loop_eq:
  "addAnalyses_loop E qe analyses (calls, tq) =
     (calls @ map (\<lambda>a. AddAnalysis a None) (filter (direct E qe) (map (get_object E) analyses)),
      tq @ filter (\<lambda>a. \<not> direct E qe a) (map (get_object E) analyses))"
  by (induction analyses arbitrary: calls tq) (auto simp: direct_def Let_def)

lemma queued_adds: "list_all is_add adds \<Longrightarrow> queued adds = []"
  by (induction adds rule: queued.induct) auto

lemma queued_submit: "list_all is_add adds \<Longrightarrow> queued (submit_to_queue t (adds, tq)) = tq"
  by (simp add: submit_to_queue_def queued_append queued_adds)

lemma added_submit: "added (submit_to_queue t (adds, tq)) = added adds"
  by (simp add: submit_to_queue_def added_append)

lemma list_all_is_add_map: "list_all is_add (map (\<lambda>a. AddAnalysis a p) xs)"
  by (induction xs) auto

lemma addAnalyses_disabled:
  "\<not> api_is_queue_enabled E ''task_assign_analyses'' \<Longrightarrow>
   addAnalyses E analyses = map (\<lambda>a. AddAnalysis (get_object E a) None) analyses"
  by (simp add: addAnalyses_def addAnalyses_loop_eq direct_def submit_to_queue_def comp_def)

lemma routine_disabled:
  fixes E :: "('brain, 'obj, 'arid :: linorder, 'req) env"
  assumes "\<not> api_is_queue_enabled E ''task_assign_analyses''"
  shows "\<exists>calls. apply_worksheet_template_routine_analyses E t = Inr calls \<and>
           list_all is_add calls \<and> added calls = grouped_analyses E t"
proof -
  from routine_result [of E t] obtain adds where
    r: "apply_worksheet_template_routine_analyses E t =
         Inr (submit_to_queue (Some t)
                (adds, filter (\<lambda>a. \<not> direct E (api_is_queue_enabled E ''task_assign_analyses'') a)
                         (grouped_analyses E t)))"
    and a: "list_all is_add adds"
    and d: "added adds = filter (direct E (api_is_queue_enabled E ''task_assign_analyses''))
                        (grouped_analyses E t)"
    by blast
  from assms have all: "\<And>a. direct E (api_is_queue_enabled E ''task_assign_analyses'') a"
    by (simp add: direct_def)
  from r all have "apply_worksheet_template_routine_analyses E t = Inr adds"
    by (simp add: submit_to_queue_def)
  moreover from d all have "added adds = grouped_analyses E t" by simp
  ultimately show ?thesis using a by blast
qed



section \<open>The task store keeps the dedup invariant\<close>

lemma filter_map_le:
  "(\<And>x. P (f x) \<Longrightarrow> Q x) \<Longrightarrow> length (filter P (map f xs)) \<le> length (filter Q xs)"
  by (induction xs) auto

lemma allowed_from_active: "allowed old new \<Longrightarrow> is_active old"
  by (cases old; cases new) (auto simp: is_active_def)

lemma transition_inv: "dedup_inv store \<Longrightarrow> dedup_inv (transition tid new store)"
proof -
  assume i: "dedup_inv store"
  have "length (active_tasks (transition tid new store) target) \<le> length (active_tasks store target)"
    for target
    unfolding active_tasks_def transition_def
    by (rule filter_map_le) (auto simp: locks_def dest: allowed_from_active split: if_splits)
  with i show ?thesis unfolding dedup_inv_def by (meson le_trans)
qed

lemma merge_payload_active:
  "active_tasks (merge_payload tid items store) target
     = merge_payload tid items (active_tasks store target)"
  by (induction store) (auto simp: active_tasks_def merge_payload_def locks_def)

lemma submit_inv:
  assumes "dedup_inv store" and "submit pol registered store nm target items csize = Inr (tid, store')"
  shows "dedup_inv store'"
proof (cases "active_tasks store target")
  case Nil
  with assms(2) have s: "store' = store @ [\<lparr>task_id = length store, name = nm, target_ref = target,
                           payload = items, chunk_size = csize, status = Queued,
                           attempts = 0\<rparr>]"
    by (auto simp: submit_def split: if_splits)
  have "length (active_tasks store' tg) \<le> 1" for tg
  proof (cases "tg = target")
    case True
    with Nil s show ?thesis by (simp add: active_tasks_def locks_def)
  next
    case False
    with s have "active_tasks store' tg = active_tasks store tg"
      by (simp add: active_tasks_def locks_def)
    with assms(1) show ?thesis by (simp add: dedup_inv_def)
  qed
  then show ?thesis by (simp add: dedup_inv_def)
next
  case (Cons holder others)
  with assms(2) have "store' = merge_payload (task_id holder) items store"
    by (auto simp: submit_def split: if_splits policy.splits)
  then have "length (active_tasks store' tg) = length (active_tasks store tg)" for tg
    by (simp add: merge_payload_active) (simp add: merge_payload_def)
  with assms(1) show ?thesis by (simp add: dedup_inv_def)
qed

lemma apply_operation_inv:
  "dedup_inv store \<Longrightarrow> dedup_inv (apply_operation pol registered store op)"
proof (cases op)
  case (Submit nm target items csize)
  assume i: "dedup_inv store"
  show ?thesis
  proof (cases "submit pol registered store nm target items csize")
    case (Inl e)
    with Submit i show ?thesis by simp
  next
    case (Inr r)
    obtain tid store' where "r = (tid, store')" by (cases r)
    with Inr Submit submit_inv [OF i, of pol registered nm target items csize tid store']
    show ?thesis by simp
  qed
next
  case (Transition tid new)
  assume "dedup_inv store"
  with Transition show ?thesis by (simp add: transition_inv)
qed

lemma foldl_operations_inv:
  "dedup_inv store \<Longrightarrow> dedup_inv (foldl (apply_operation pol registered) store ops)"
  by (induction ops arbitrary: store) (auto simp: apply_operation_inv)

lemma run_operations_inv: "dedup_inv (run_operations pol registered ops)"
  unfolding run_operations_def
  by (rule foldl_operations_inv) (simp add: dedup_inv_def active_tasks_def)

lemma submit_locked:
  assumes "nm \<in> registered" and "is_queued store target"
  shows "(pol = Reject \<longrightarrow>
            submit pol registered store nm target items csize = Inl DuplicateTargetError) \<and>
         (pol = Merge \<longrightarrow>
            (\<exists>holder \<in> set store. locks target holder \<and>
               (\<exists>store'. submit pol registered store nm target items csize
                            = Inr (task_id holder, store') \<and>
                          holder\<lparr>payload := payload holder @ items\<rparr> \<in> set store')))"
proof -
  from assms(2) obtain holder others where a: "active_tasks store target = holder # others"
    by (cases "active_tasks store target") (auto simp: is_queued_def)
  then have "holder \<in> set (filter (locks target) store)" by (simp add: active_tasks_def)
  then have h: "holder \<in> set store" "locks target holder" by auto
  have m: "holder\<lparr>payload := payload holder @ items\<rparr> \<in> set (merge_payload (task_id holder) items store)"
    unfolding merge_payload_def using h(1) by (auto simp: image_iff intro!: bexI [of _ holder])
  show ?thesis
  proof (cases pol)
    case Reject
    with assms(1) a show ?thesis by (simp add: submit_def)
  next
    case Merge
    with assms(1) a have "submit pol registered store nm target items csize
        = Inr (task_id holder, merge_payload (task_id holder) items store)"
      by (simp add: submit_def)
    with h m Merge show ?thesis by blast
  qed
qed

section \<open>Chunking\<close>

lemma chunker_split_bounded:
  "0 < n \<Longrightarrow> c \<in> set (chunker_split items n) \<Longrightarrow> c \<noteq> [] \<and> length c \<le> n"
proof (induction items n rule: chunker_split.induct)
  case (1 items chunk_size)
  show ?case
  proof (cases "items = []")
    case True
    with "1.prems" show ?thesis by (simp add: chunker_split.simps)
  next
    case False
    with "1.prems" have "c = take chunk_size items \<or> c \<in> set (chunker_split (drop chunk_size items) chunk_size)"
      by (subst (asm) chunker_split.simps) auto
    then show ?thesis
    proof
      assume "c = take chunk_size items"
      with False "1.prems"(1) show ?thesis by auto
    next
      assume "c \<in> set (chunker_split (drop chunk_size items) chunk_size)"
      with "1.IH" False "1.prems"(1) show ?thesis by auto
    qed
  qed
qed

lemma chunker_split_concat: "0 < n \<Longrightarrow> concat (chunker_split items n) = items"
proof (induction items n rule: chunker_split.induct)
  case (1 items chunk_size)
  show ?case
  proof (cases "items = []")
    case True
    then show ?thesis by (simp add: chunker_split.simps)
  next
    case False
    with "1.prems" have "chunker_split items chunk_size
        = take chunk_size items # chunker_split (drop chunk_size items) chunk_size"
      by (subst chunker_split.simps) simp
    moreover have "concat (chunker_split (drop chunk_size items) chunk_size) = drop chunk_size items"
      using "1.IH" False "1.prems" by simp
    ultimately show ?thesis by simp
  qed
qed

lemma chunk_count_step:
  fixes L n :: nat
  assumes "0 < n" "0 < L"
  shows "(L + n - 1) div n = Suc ((L - n + n - 1) div n)"
proof (cases "n \<le> L")
  case True
  define m where "m = L - n + n - 1"
  have "L + n - 1 = m + n" using True assms by (simp add: m_def)
  moreover have "(m + n) div n = Suc (m div n)"
    using div_add_self2 [of n m] assms(1) by simp
  ultimately show ?thesis by (simp add: m_def)
next
  case False
  then have z: "L - n = 0" by simp
  have "(L + n - 1) div n = 1"
  proof (rule div_nat_eqI)
    show "n * 1 \<le> L + n - 1" using assms by simp
    show "L + n - 1 < n * Suc 1" using assms False by simp
  qed
  moreover have "(n - 1) div n = 0" using assms by simp
  ultimately show ?thesis using z by simp
qed

lemma chunker_split_length:
  "0 < n \<Longrightarrow> length (chunker_split items n) = (length items + n - 1) div n"
proof (induction items n rule: chunker_split.induct)
  case (1 items chunk_size)
  show ?case
  proof (cases "items = []")
    case True
    with "1.prems" show ?thesis by (simp add: chunker_split.simps)
  next
    case False
    with "1.prems" have e: "chunker_split items chunk_size
        = take chunk_size items # chunker_split (drop chunk_size items) chunk_size"
      by (subst chunker_split.simps) simp
    have i: "length (chunker_split (drop chunk_size items) chunk_size)
          = (length items - chunk_size + chunk_size - 1) div chunk_size"
      using "1.IH" False "1.prems" by simp
    have l: "0 < length items" using False by simp
    have "length (chunker_split items chunk_size)
          = Suc ((length items - chunk_size + chunk_size - 1) div chunk_size)"
      by (simp only: e i list.size) 
    also have "\<dots> = (length items + chunk_size - 1) div chunk_size"
      using chunk_count_step [OF "1.prems" l] by (rule sym)
    finally show ?thesis .
  qed
qed

text \<open>The scenario of the specification: 250 items in chunks of 50 are five chunks.\<close>

lemma chunker_split_250:
  "length items = 250 \<Longrightarrow> length (chunker_split items 50) = 5"
proof -
  assume "length items = 250"
  then have "length (chunker_split items 50) = (250 + 50 - 1) div (50 :: nat)"
    using chunker_split_length [of 50 items] by simp
  then show ?thesis by simp
qed

section \<open>Sample runs\<close>

text \<open>
  The example catalog on the empty worksheet: the queued brain 2 is passed over, the
  requests 0 and 1 take the slots 1 and 2, the reference analysis 13 is added and the
  routine analyses 11 and 14 are submitted; with the queue disabled all three are added.
\<close>

lemma sample_run_enabled:
  "apply_worksheet_template_routine_analyses sample_env sample_wst =
     Inr [AddAnalysis 13 (Some 2), QueueAssignAnalyses [11, 14] (Some sample_wst)]"
  by code_simp

lemma sample_run_disabled:
  "apply_worksheet_template_routine_analyses sample_env_disabled sample_wst =
     Inr [AddAnalysis 11 (Some 1), AddAnalysis 13 (Some 2), AddAnalysis 14 (Some 2)]"
  by code_simp

text \<open>
  A worksheet that already holds analyses and has the request of analysis 11 at slot 5:
  the request keeps its fixed slot, the other request takes the first free one.
\<close>

lemma sample_run_fixed_slot:
  "apply_worksheet_template_routine_analyses
     (sample_env_disabled\<lparr>get_routine_analyses := [7],
                          get_slot_position := (\<lambda>r. if r = 11 then Some 5 else None)\<rparr>)
     sample_wst =
     Inr [AddAnalysis 11 (Some 5), AddAnalysis 13 (Some 1), AddAnalysis 14 (Some 1)]"
  by code_simp

text \<open>
  With a dispatcher registered, even one whose backend cannot be reached, the routine
  analysis 14 is submitted and an operation reaches the store.
\<close>

lemma sample_dispatcher_registered:
  "addAnalyses
     (with_dispatcher sample_env [IQueueDispatcher \<mapsto> \<lparr>backend_reachable = False\<rparr>] (\<lambda>name. True))
     [3, 4] = [AddAnalysis 13 None, QueueAssignAnalyses [14] None] \<and>
   dispatch [IQueueDispatcher \<mapsto> \<lparr>backend_reachable = False\<rparr>] Merge {''task_assign_analyses''} []
     (Submit ''task_assign_analyses'' ''worksheet-1'' [1, 2 :: nat] 5) =
     [\<lparr>task_id = 0, name = ''task_assign_analyses'', target_ref = ''worksheet-1'',
       payload = [1, 2], chunk_size = 5, status = Queued, attempts = 0\<rparr>]"
  by code_simp

section \<open>The properties\<close>

text \<open>
  C1: for every target, after any run of submissions and status transitions at most
  one task with a status in \<open>queued\<close>, \<open>running\<close>, \<open>retry_pending\<close> references
  the target; and a submission for a target that an active task already locks is
  rejected with \<open>DuplicateTargetError\<close> or merged into the payload of the task that
  holds the lock, by policy, never dropped.
\<close>

theorem dedup_invariant:
  "length (active_tasks (run_operations pol registered ops) target) \<le> 1 \<and>
   (nm \<in> registered \<longrightarrow> is_queued store target \<longrightarrow>
      (pol = Reject \<longrightarrow>
         submit pol registered store nm target items csize = Inl DuplicateTargetError) \<and>
      (pol = Merge \<longrightarrow>
         (\<exists>holder \<in> set store. locks target holder \<and>
            (\<exists>store'. submit pol registered store nm target items csize
                         = Inr (task_id holder, store') \<and>
                       holder\<lparr>payload := payload holder @ items\<rparr> \<in> set store'))))"
  using run_operations_inv [of pol registered ops] submit_locked [of nm registered store target pol items csize]
  unfolding dedup_inv_def by blast

theorem dedup_invariant_witness:
  "length (active_tasks (run_operations Merge {''task_assign_analyses''} sample_ops) ''worksheet-1'') \<le> 1 \<and>
   ''task_assign_analyses'' \<in> {''task_assign_analyses''} \<and>
   is_queued (run_operations Merge {''task_assign_analyses''} sample_ops) ''worksheet-1'' \<and>
   (\<exists>holder \<in> set (run_operations Merge {''task_assign_analyses''} sample_ops).
      locks ''worksheet-1'' holder \<and>
      (\<exists>store'. submit Merge {''task_assign_analyses''}
                   (run_operations Merge {''task_assign_analyses''} sample_ops)
                   ''task_assign_analyses'' ''worksheet-1'' [9] 5 = Inr (task_id holder, store') \<and>
                 holder\<lparr>payload := payload holder @ [9]\<rparr> \<in> set store')) \<and>
   submit Reject {''task_assign_analyses''}
     (run_operations Merge {''task_assign_analyses''} sample_ops)
     ''task_assign_analyses'' ''worksheet-1'' [9] 5 = Inl DuplicateTargetError"
proof -
  let ?R = "{''task_assign_analyses''}"
  let ?S = "run_operations Merge ?R sample_ops"
  have r: "''task_assign_analyses'' \<in> ?R" by simp
  have q: "is_queued ?S ''worksheet-1''" by code_simp
  show ?thesis
    using r q
      dedup_invariant [of Merge ?R sample_ops "''worksheet-1''" "''task_assign_analyses''" ?S "[9]" 5]
      dedup_invariant [of Reject ?R sample_ops "''worksheet-1''" "''task_assign_analyses''" ?S "[9]" 5]
    by blast
qed

text \<open>
  C2: when \<open>is_queue_enabled\<close> returns false, \<open>addAnalyses\<close> adds every analysis
  it is given through \<open>addAnalysis\<close>, in order, and the template routine returns
  having added every analysis it grouped through \<open>addAnalysis\<close>; neither calls
  \<open>queue_assign_analyses\<close>.
\<close>

theorem queue_disabled_falls_back:
  fixes E :: "('brain, 'obj, 'arid :: linorder, 'req) env"
  assumes "\<not> api_is_queue_enabled E ''task_assign_analyses''"
  shows "addAnalyses E analyses = map (\<lambda>a. AddAnalysis (get_object E a) None) analyses \<and>
         (\<exists>calls. apply_worksheet_template_routine_analyses E t = Inr calls \<and>
            list_all is_add calls \<and> added calls = grouped_analyses E t)"
  using addAnalyses_disabled [OF assms] routine_disabled [OF assms] by blast

theorem queue_disabled_falls_back_witness:
  "\<not> api_is_queue_enabled sample_env_disabled ''task_assign_analyses'' \<and>
   addAnalyses sample_env_disabled [1, 2, 3] =
     [AddAnalysis 11 None, AddAnalysis 12 None, AddAnalysis 13 None] \<and>
   grouped_analyses sample_env_disabled sample_wst = [11, 13, 14] \<and>
   (\<exists>calls. apply_worksheet_template_routine_analyses sample_env_disabled sample_wst = Inr calls \<and>
      list_all is_add calls \<and> added calls = [11, 13, 14])"
proof -
  have h: "\<not> api_is_queue_enabled sample_env_disabled ''task_assign_analyses''"
    by (simp add: sample_env_disabled_def)
  have g: "grouped_analyses sample_env_disabled sample_wst = [11, 13, 14]" by code_simp
  have m: "map (\<lambda>a. AddAnalysis (get_object sample_env_disabled a) None) [1, 2, 3] =
             [AddAnalysis 11 None, AddAnalysis 12 None, AddAnalysis 13 None]"
    by (simp add: sample_env_disabled_def sample_env_def)
  show ?thesis
    using h g m queue_disabled_falls_back [OF h, of "[1, 2, 3]" sample_wst] by simp
qed

text \<open>
  C3: for every task name, \<open>get_chunk_size\<close> returns the value mapped to that exact
  name in \<open>CHUNK_SIZES\<close> when such an entry exists, and otherwise the value mapped to
  the key \<open>"default"\<close>.
\<close>

theorem get_chunk_size_resolution:
  "(CHUNK_SIZES task_name = Some v \<longrightarrow> get_chunk_size CHUNK_SIZES task_name = Inr v) \<and>
   (CHUNK_SIZES task_name = None \<longrightarrow> CHUNK_SIZES ''default'' = Some d \<longrightarrow>
      get_chunk_size CHUNK_SIZES task_name = Inr d)"
  by (simp add: get_chunk_size_def)

theorem get_chunk_size_resolution_witness:
  "[''default'' \<mapsto> (10::int), ''task_assign_analyses'' \<mapsto> 5] ''task_assign_analyses'' = Some 5 \<and>
   get_chunk_size [''default'' \<mapsto> 10, ''task_assign_analyses'' \<mapsto> 5] ''task_assign_analyses'' = Inr 5 \<and>
   [''default'' \<mapsto> (10::int), ''task_assign_analyses'' \<mapsto> 5] ''task_action_submit'' = None \<and>
   [''default'' \<mapsto> (10::int), ''task_assign_analyses'' \<mapsto> 5] ''default'' = Some 10 \<and>
   get_chunk_size [''default'' \<mapsto> 10, ''task_assign_analyses'' \<mapsto> 5] ''task_action_submit'' = Inr 10"
  using
    get_chunk_size_resolution
      [of "[''default'' \<mapsto> 10, ''task_assign_analyses'' \<mapsto> 5]" "''task_assign_analyses''" 5 10]
    get_chunk_size_resolution
      [of "[''default'' \<mapsto> 10, ''task_assign_analyses'' \<mapsto> 5]" "''task_action_submit''" 5 10]
  by simp




text \<open>
  C5: an analysis that \<open>is_queued\<close> reports as claimed by an in-flight task (every
  brain of the catalog result that resolves to it is reported) is skipped by the
  template routine: the routine returns, and the analysis is neither added to the
  worksheet nor part of the queue submission.
\<close>

theorem queued_analyses_skipped:
  fixes E :: "('brain, 'obj, 'arid :: linorder, 'req) env"
  assumes "b \<in> set (bac E)" and "api_is_queued E b"
    and "\<forall>b' \<in> set (bac E). get_object E b' = get_object E b \<longrightarrow> api_is_queued E b'"
  shows "\<exists>calls. apply_worksheet_template_routine_analyses E t = Inr calls \<and>
           get_object E b \<notin> set (added calls) \<and> get_object E b \<notin> set (queued calls)"
proof -
  let ?qe = "api_is_queue_enabled E ''task_assign_analyses''"
  from routine_result [of E t] obtain adds where
    r: "apply_worksheet_template_routine_analyses E t =
         Inr (submit_to_queue (Some t)
                (adds, filter (\<lambda>a. \<not> direct E ?qe a) (grouped_analyses E t)))"
    and a: "list_all is_add adds"
    and d: "added adds = filter (direct E ?qe) (grouped_analyses E t)"
    by blast
  let ?calls = "submit_to_queue (Some t) (adds, filter (\<lambda>a. \<not> direct E ?qe a) (grouped_analyses E t))"
  have n: "get_object E b \<notin> set (grouped_analyses E t)"
  proof
    assume "get_object E b \<in> set (grouped_analyses E t)"
    from grouped_analyses_from [OF this] assms(3) show False
      by (auto simp: from_unqueued_def)
  qed
  have "get_object E b \<notin> set (added ?calls)" using n d by (simp add: added_submit)
  moreover have "get_object E b \<notin> set (queued ?calls)" using n a by (simp add: queued_submit)
  ultimately show ?thesis using r by blast
qed

theorem queued_analyses_skipped_witness:
  "2 \<in> set (bac sample_env) \<and> api_is_queued sample_env 2 \<and>
   (\<exists>calls. apply_worksheet_template_routine_analyses sample_env sample_wst = Inr calls \<and>
      get_object sample_env 2 \<notin> set (added calls) \<and>
      get_object sample_env 2 \<notin> set (queued calls))"
proof -
  have h1: "2 \<in> set (bac sample_env)" by (simp add: sample_env_def)
  have h2: "api_is_queued sample_env 2" by (simp add: sample_env_def)
  have h3: "\<forall>b' \<in> set (bac sample_env).
              get_object sample_env b' = get_object sample_env 2 \<longrightarrow> api_is_queued sample_env b'"
    by (simp add: sample_env_def)
  show ?thesis
    using h1 h2 queued_analyses_skipped [OF h1 h2 h3, of sample_wst] by blast
qed

text \<open>
  C6: for every list of items and every positive chunk size, \<open>split\<close> produces
  chunks that are each bounded by the chunk size (and not empty), and concatenating
  the chunks in order gives back the items in their original order.
\<close>

theorem chunker_split_round_trip:
  "0 < n \<Longrightarrow>
   (\<forall>c \<in> set (chunker_split items n). c \<noteq> [] \<and> length c \<le> n) \<and>
   concat (chunker_split items n) = items"
  using chunker_split_bounded [of n _ items] chunker_split_concat [of n items] by blast

theorem chunker_split_round_trip_witness:
  "chunker_split [1, 2, 3, 4, 5 :: nat] 2 = [[1, 2], [3, 4], [5]] \<and>
   concat (chunker_split [1, 2, 3, 4, 5 :: nat] 2) = [1, 2, 3, 4, 5]"
proof -
  have h: "0 < (2 :: nat)" by simp
  have v: "chunker_split [1, 2, 3, 4, 5 :: nat] 2 = [[1, 2], [3, 4], [5]]" by code_simp
  show ?thesis using chunker_split_round_trip [OF h, of "[1, 2, 3, 4, 5 :: nat]"] v by simp
qed

text \<open>
  C7: for every task and chunk, the Executor's \<open>run\<close> returns an
  \<open>ExecutionResult\<close> and raises nothing; when the registered handler faults, the
  fault is the \<open>error\<close> field of the result.
\<close>

theorem executor_run_never_raises:
  "\<exists>r. executor_run handlers t chunk = Inr r \<and>
        (\<forall>h fault. handlers (name t) = Some h \<longrightarrow> h (target_ref t) chunk = Inl fault \<longrightarrow>
           error r = Some ChunkExecutionError)"
  by (auto simp: executor_run_def split: option.splits sum.splits)

theorem executor_run_never_raises_witness:
  "faulty_handlers (name sample_task) = Some (\<lambda>target chunk. Inl ()) \<and>
   (\<exists>r. executor_run faulty_handlers sample_task [1, 2] = Inr r \<and>
        error r = Some ChunkExecutionError)"
proof -
  have h: "faulty_handlers (name sample_task) = Some (\<lambda>target chunk. Inl ())"
    by (simp add: faulty_handlers_def sample_task_def)
  show ?thesis
    using h executor_run_never_raises [of faulty_handlers sample_task "[1, 2]"] by auto
qed

text \<open>
  C8: when \<open>CHUNK_SIZES\<close> contains the key \<open>"default"\<close>, \<open>get_chunk_size\<close> returns a
  chunk size for every task name; the \<open>KeyError\<close> branch is not reached.
\<close>

theorem get_chunk_size_no_key_error:
  assumes "''default'' \<in> dom CHUNK_SIZES"
  shows "\<exists>v. get_chunk_size CHUNK_SIZES task_name = Inr v"
  using assms by (auto simp: get_chunk_size_def split: option.splits)

theorem get_chunk_size_no_key_error_witness:
  "''default'' \<in> dom [''default'' \<mapsto> (10::int)] \<and>
   (\<exists>v. get_chunk_size [''default'' \<mapsto> 10] ''task_assign_analyses'' = Inr v)"
proof -
  have h: "''default'' \<in> dom [''default'' \<mapsto> (10::int)]" by simp
  show ?thesis
    using h get_chunk_size_no_key_error [OF h, of "''task_assign_analyses''"] by simp
qed

text \<open>
  C9: an analysis that does not provide \<open>IRequestAnalysis\<close> is added through
  \<open>addAnalysis\<close> whether or not the queue is enabled, by \<open>addAnalyses\<close> for every
  analysis it is given and by the template routine for every analysis it grouped;
  only analyses that provide \<open>IRequestAnalysis\<close> are placed in a queue submission.
\<close>

theorem reference_analyses_added_directly:
  fixes E :: "('brain, 'obj, 'arid :: linorder, 'req) env"
  shows "(\<forall>a \<in> set analyses. \<not> providedBy E (get_object E a) \<longrightarrow>
            AddAnalysis (get_object E a) None \<in> set (addAnalyses E analyses)) \<and>
         (\<forall>a \<in> set (queued (addAnalyses E analyses)). providedBy E a) \<and>
         (\<exists>calls. apply_worksheet_template_routine_analyses E t = Inr calls \<and>
            (\<forall>a \<in> set (grouped_analyses E t). \<not> providedBy E a \<longrightarrow> a \<in> set (added calls)) \<and>
            (\<forall>a \<in> set (queued calls). providedBy E a))"
proof -
  let ?qe = "api_is_queue_enabled E ''task_assign_analyses''"
  let ?objs = "map (get_object E) analyses"
  let ?adds = "map (\<lambda>a. AddAnalysis a None) (filter (direct E ?qe) ?objs)"
  have e: "addAnalyses E analyses = submit_to_queue None (?adds, filter (\<lambda>a. \<not> direct E ?qe a) ?objs)"
    by (simp add: addAnalyses_def addAnalyses_loop_eq)
  have 1: "\<forall>a \<in> set analyses. \<not> providedBy E (get_object E a) \<longrightarrow>
            AddAnalysis (get_object E a) None \<in> set (addAnalyses E analyses)"
    unfolding e by (auto simp: submit_to_queue_def direct_def)
  have "queued (addAnalyses E analyses) = filter (\<lambda>a. \<not> direct E ?qe a) ?objs"
    unfolding e by (rule queued_submit) (rule list_all_is_add_map)
  then have 2: "\<forall>a \<in> set (queued (addAnalyses E analyses)). providedBy E a"
    by (auto simp: direct_def)
  from routine_result [of E t] obtain adds where
    r: "apply_worksheet_template_routine_analyses E t =
         Inr (submit_to_queue (Some t)
                (adds, filter (\<lambda>a. \<not> direct E ?qe a) (grouped_analyses E t)))"
    and a: "list_all is_add adds"
    and d: "added adds = filter (direct E ?qe) (grouped_analyses E t)"
    by blast
  let ?calls = "submit_to_queue (Some t) (adds, filter (\<lambda>a. \<not> direct E ?qe a) (grouped_analyses E t))"
  have "\<forall>a \<in> set (grouped_analyses E t). \<not> providedBy E a \<longrightarrow> a \<in> set (added ?calls)"
    using d by (simp add: added_submit direct_def)
  moreover have "\<forall>a \<in> set (queued ?calls). providedBy E a"
    using a by (simp add: queued_submit direct_def)
  ultimately have 3: "\<exists>calls. apply_worksheet_template_routine_analyses E t = Inr calls \<and>
            (\<forall>a \<in> set (grouped_analyses E t). \<not> providedBy E a \<longrightarrow> a \<in> set (added calls)) \<and>
            (\<forall>a \<in> set (queued calls). providedBy E a)"
    using r by blast
  from 1 2 3 show ?thesis by blast
qed

theorem reference_analyses_added_directly_witness:
  "api_is_queue_enabled sample_env ''task_assign_analyses'' \<and>
   \<not> providedBy sample_env (get_object sample_env 3) \<and>
   AddAnalysis (get_object sample_env 3) None \<in> set (addAnalyses sample_env [1, 2, 3, 4]) \<and>
   13 \<in> set (grouped_analyses sample_env sample_wst) \<and>
   (\<exists>calls. apply_worksheet_template_routine_analyses sample_env sample_wst = Inr calls \<and>
      13 \<in> set (added calls))"
proof -
  have e: "api_is_queue_enabled sample_env ''task_assign_analyses''"
    by (simp add: sample_env_def)
  have n: "\<not> providedBy sample_env (get_object sample_env 3)" by (simp add: sample_env_def)
  have n': "\<not> providedBy sample_env 13" by (simp add: sample_env_def)
  have i: "3 \<in> set [1, 2, 3, 4 :: nat]" by simp
  have g: "13 \<in> set (grouped_analyses sample_env sample_wst)" by code_simp
  show ?thesis
    using e n n' i g reference_analyses_added_directly [of "[1, 2, 3, 4]" sample_env sample_wst]
    by blast
qed

text \<open>
  C10: when the catalog query returns no analysis, the template routine returns at
  once: it makes no call of \<open>addAnalysis\<close> and none of \<open>queue_assign_analyses\<close>.
\<close>

theorem empty_catalog_no_effect:
  "apply_worksheet_template_routine_analyses (E\<lparr>bac := []\<rparr>) t = Inr []"
  by (simp add: apply_worksheet_template_routine_analyses_def)

end
